theory Spec2Isabelle
  imports Main "HOL-Library.Sublist"
begin

section \<open>The Tempfile wrapper of helpful.py\<close>

text \<open>
  The class \<^verbatim>\<open>Tempfile\<close> keeps a list \<^verbatim>\<open>self.paths\<close> of everything it has created
  through \<^verbatim>\<open>tempfile.mkstemp\<close> and \<^verbatim>\<open>tempfile.mkdtemp\<close>, and \<^verbatim>\<open>cleanup\<close> removes the
  entries of that list with \<^verbatim>\<open>os.close\<close>, \<^verbatim>\<open>os.unlink\<close> and \<^verbatim>\<open>shutil.rmtree\<close>.

  The five library functions are not code of the class. The methods are therefore
  modelled over an arbitrary host: a record of the five functions, each a transformer
  of a world \<open>'w\<close> that either returns a value or raises an exception \<open>'e\<close>, and in both
  cases leaves a world behind. The arguments \<^verbatim>\<open>*args, **kwargs\<close> that the two create
  methods pass through untouched are a value of type \<open>'a\<close>.
\<close>

subsection \<open>Data\<close>

type_synonym fd = int
type_synonym path = string

text \<open>
  An entry of \<^verbatim>\<open>self.paths\<close> is what one of the two create functions returned: the
  tuple \<^verbatim>\<open>(fd, path)\<close> of \<^verbatim>\<open>tempfile.mkstemp\<close> or the string of \<^verbatim>\<open>tempfile.mkdtemp\<close>.
\<close>

datatype handle = FileHandle fd path | DirHandle path

text \<open>\<^verbatim>\<open>isinstance(path, tuple)\<close>\<close>

fun is_tuple :: "handle \<Rightarrow> bool" where
  "is_tuple (FileHandle f p) = True"
| "is_tuple (DirHandle p) = False"

fun handle_path :: "handle \<Rightarrow> path" where
  "handle_path (FileHandle f p) = p"
| "handle_path (DirHandle p) = p"

record Tempfile =
  paths :: "handle list"

record ('w, 'e, 'a) host =
  tempfile_mkstemp :: "'a \<Rightarrow> 'w \<Rightarrow> ('e + fd \<times> path) \<times> 'w"
  tempfile_mkdtemp :: "'a \<Rightarrow> 'w \<Rightarrow> ('e + path) \<times> 'w"
  os_close :: "fd \<Rightarrow> 'w \<Rightarrow> ('e + unit) \<times> 'w"
  os_unlink :: "path \<Rightarrow> 'w \<Rightarrow> ('e + unit) \<times> 'w"
  shutil_rmtree :: "path \<Rightarrow> 'w \<Rightarrow> ('e + unit) \<times> 'w"

subsection \<open>The methods\<close>

text \<open>
  Every method takes the object \<^verbatim>\<open>self\<close> and the world and gives back what it
  returned or raised (\<open>Inl\<close> the exception), the object and the world.
\<close>

text \<open>\<^verbatim>\<open>__init__\<close>: \<^verbatim>\<open>self.paths = []\<close>\<close>

definition Tempfile_init :: Tempfile where
  "Tempfile_init = \<lparr>paths = []\<rparr>"

text \<open>
  \<^verbatim>\<open>path = tempfile.mkstemp(*args, **kwargs); self.paths.append(path); return path\<close>.
  An exception of the library call leaves the method before the append.
\<close>

definition mkstemp ::
  "('w, 'e, 'a) host \<Rightarrow> 'a \<Rightarrow> Tempfile \<Rightarrow> 'w \<Rightarrow> ('e + fd \<times> path) \<times> Tempfile \<times> 'w" where
  "mkstemp H args self w =
     (case tempfile_mkstemp H args w of
        (Inl e, w') \<Rightarrow> (Inl e, self, w')
      | (Inr (f, p), w') \<Rightarrow>
          (Inr (f, p), self\<lparr>paths := paths self @ [FileHandle f p]\<rparr>, w'))"

text \<open>
  \<^verbatim>\<open>path = tempfile.mkdtemp(*args, **kwargs); self.paths.append(path); return path\<close>
\<close>

definition mkdtemp ::
  "('w, 'e, 'a) host \<Rightarrow> 'a \<Rightarrow> Tempfile \<Rightarrow> 'w \<Rightarrow> ('e + path) \<times> Tempfile \<times> 'w" where
  "mkdtemp H args self w =
     (case tempfile_mkdtemp H args w of
        (Inl e, w') \<Rightarrow> (Inl e, self, w')
      | (Inr p, w') \<Rightarrow> (Inr p, self\<lparr>paths := paths self @ [DirHandle p]\<rparr>, w'))"

text \<open>
  The body of the loop of \<^verbatim>\<open>cleanup\<close> for one entry:
  \<^verbatim>\<open>if isinstance(path, tuple): os.close(path[0]); os.unlink(path[1])\<close>,
  \<^verbatim>\<open>else: shutil.rmtree(path)\<close>.
\<close>

fun cleanup_entry :: "('w, 'e, 'a) host \<Rightarrow> handle \<Rightarrow> 'w \<Rightarrow> ('e + unit) \<times> 'w" where
  "cleanup_entry H (FileHandle f p) w =
     (case os_close H f w of
        (Inl e, w') \<Rightarrow> (Inl e, w')
      | (Inr u, w') \<Rightarrow> os_unlink H p w')"
| "cleanup_entry H (DirHandle p) w = shutil_rmtree H p w"

text \<open>\<^verbatim>\<open>for path in self.paths: ...\<close>; an exception ends the loop.\<close>

fun cleanup_loop :: "('w, 'e, 'a) host \<Rightarrow> handle list \<Rightarrow> 'w \<Rightarrow> ('e + unit) \<times> 'w" where
  "cleanup_loop H [] w = (Inr (), w)"
| "cleanup_loop H (h # hs) w =
     (case cleanup_entry H h w of
        (Inl e, w') \<Rightarrow> (Inl e, w')
      | (Inr u, w') \<Rightarrow> cleanup_loop H hs w')"

text \<open>
  \<^verbatim>\<open>cleanup\<close>: the loop, then \<^verbatim>\<open>self.paths = []\<close>. The assignment follows the loop,
  so an exception raised in the loop leaves \<^verbatim>\<open>self.paths\<close> as it was.
\<close>

definition cleanup ::
  "('w, 'e, 'a) host \<Rightarrow> Tempfile \<Rightarrow> 'w \<Rightarrow> ('e + unit) \<times> Tempfile \<times> 'w" where
  "cleanup H self w =
     (case cleanup_loop H (paths self) w of
        (Inl e, w') \<Rightarrow> (Inl e, self, w')
      | (Inr u, w') \<Rightarrow> (Inr (), self\<lparr>paths := []\<rparr>, w'))"

text \<open>\<^verbatim>\<open>__enter__\<close>: \<^verbatim>\<open>return self\<close>\<close>

definition Tempfile_enter :: "Tempfile \<Rightarrow> Tempfile" where
  "Tempfile_enter self = self"

text \<open>
  \<^verbatim>\<open>__exit__(self, type, value, traceback)\<close>: \<^verbatim>\<open>self.cleanup()\<close>. The three arguments,
  here the exception that left the block if one did, are not looked at, and the
  method returns \<^verbatim>\<open>None\<close>.
\<close>

definition Tempfile_exit ::
  "('w, 'e, 'a) host \<Rightarrow> Tempfile \<Rightarrow> 'e option \<Rightarrow> 'w \<Rightarrow> ('e + unit) \<times> Tempfile \<times> 'w" where
  "Tempfile_exit H self exc w = cleanup H self w"

text \<open>
  The statement \<^verbatim>\<open>with mgr as t: block\<close>, as the language defines it: \<^verbatim>\<open>t\<close> is what
  \<^verbatim>\<open>__enter__\<close> returns, the block runs on it, and \<^verbatim>\<open>__exit__\<close> is called when the
  block returns and when it raises. \<^verbatim>\<open>__exit__\<close> returns \<^verbatim>\<open>None\<close>, so an exception of the
  block is raised again afterwards; an exception of \<^verbatim>\<open>__exit__\<close> itself replaces it.
  The block is any transformer of the manager and the world.
\<close>

definition with_Tempfile ::
  "('w, 'e, 'a) host \<Rightarrow> Tempfile \<Rightarrow> (Tempfile \<Rightarrow> 'w \<Rightarrow> ('e + 'r) \<times> Tempfile \<times> 'w) \<Rightarrow> 'w
     \<Rightarrow> ('e + 'r) \<times> Tempfile \<times> 'w" where
  "with_Tempfile H mgr block w =
     (let t = Tempfile_enter mgr in
      case block t w of
        (Inl e, self1, w1) \<Rightarrow>
          (case Tempfile_exit H self1 (Some e) w1 of
             (Inl e', self2, w2) \<Rightarrow> (Inl e', self2, w2)
           | (Inr u, self2, w2) \<Rightarrow> (Inl e, self2, w2))
      | (Inr r, self1, w1) \<Rightarrow>
          (case Tempfile_exit H self1 None w1 of
             (Inl e', self2, w2) \<Rightarrow> (Inl e', self2, w2)
           | (Inr u, self2, w2) \<Rightarrow> (Inr r, self2, w2)))"

subsection \<open>A client that calls the methods one after the other\<close>

text \<open>
  A program that uses one manager is a list of calls of its methods. An exception of a
  call is caught by the program, which goes on with the next call; the manager and the
  world are as the call left them.
\<close>

datatype 'a op = Op_mkstemp 'a | Op_mkdtemp 'a | Op_cleanup | Op_enter | Op_exit

fun step :: "('w, 'e, 'a) host \<Rightarrow> 'a op \<Rightarrow> Tempfile \<times> 'w \<Rightarrow> Tempfile \<times> 'w" where
  "step H (Op_mkstemp args) (self, w) = snd (mkstemp H args self w)"
| "step H (Op_mkdtemp args) (self, w) = snd (mkdtemp H args self w)"
| "step H Op_cleanup (self, w) = snd (cleanup H self w)"
| "step H Op_enter (self, w) = (Tempfile_enter self, w)"
| "step H Op_exit (self, w) = snd (Tempfile_exit H self None w)"

fun run :: "('w, 'e, 'a) host \<Rightarrow> 'a op list \<Rightarrow> Tempfile \<times> 'w \<Rightarrow> Tempfile \<times> 'w" where
  "run H [] s = s"
| "run H (c # cs) s = run H cs (step H c s)"

text \<open>The calls that create: \<^verbatim>\<open>mkstemp\<close> and \<^verbatim>\<open>mkdtemp\<close>.\<close>

fun is_create :: "'a op \<Rightarrow> bool" where
  "is_create (Op_mkstemp args) = True"
| "is_create (Op_mkdtemp args) = True"
| "is_create c = False"

subsection \<open>Recording the library calls\<close>

text \<open>
  Which library functions a method calls, and in which order, is observed by running
  the method on a host that writes every call into a list kept beside its world. The
  two create functions are recorded with what they returned or raised.
\<close>

datatype ('e, 'a) call =
    Call_mkstemp 'a "'e + fd \<times> path"
  | Call_mkdtemp 'a "'e + path"
  | Call_close fd
  | Call_unlink path
  | Call_rmtree path

definition traced :: "('w, 'e, 'a) host \<Rightarrow> ('w \<times> ('e, 'a) call list, 'e, 'a) host" where
  "traced H =
     \<lparr>tempfile_mkstemp = (\<lambda>args (w, tr).
        case tempfile_mkstemp H args w of (r, w') \<Rightarrow> (r, (w', tr @ [Call_mkstemp args r]))),
      tempfile_mkdtemp = (\<lambda>args (w, tr).
        case tempfile_mkdtemp H args w of (r, w') \<Rightarrow> (r, (w', tr @ [Call_mkdtemp args r]))),
      os_close = (\<lambda>f (w, tr).
        case os_close H f w of (r, w') \<Rightarrow> (r, (w', tr @ [Call_close f]))),
      os_unlink = (\<lambda>p (w, tr).
        case os_unlink H p w of (r, w') \<Rightarrow> (r, (w', tr @ [Call_unlink p]))),
      shutil_rmtree = (\<lambda>p (w, tr).
        case shutil_rmtree H p w of (r, w') \<Rightarrow> (r, (w', tr @ [Call_rmtree p])))\<rparr>"

text \<open>The handles that the recorded create calls have returned, in the order of the calls.\<close>

fun produced :: "('e, 'a) call list \<Rightarrow> handle list" where
  "produced [] = []"
| "produced (Call_mkstemp args (Inr (f, p)) # cs) = FileHandle f p # produced cs"
| "produced (Call_mkdtemp args (Inr p) # cs) = DirHandle p # produced cs"
| "produced (c # cs) = produced cs"

text \<open>
  What the specification says \<^verbatim>\<open>cleanup\<close> does with one handle: a file handle has its
  descriptor closed and then its file deleted, a directory handle has its tree deleted.
  This definition follows the specification and is compared with the calls that
  \<^const>\<open>cleanup\<close> makes.
\<close>

fun spec_calls :: "handle \<Rightarrow> ('e, 'a) call list" where
  "spec_calls (FileHandle f p) = [Call_close f, Call_unlink p]"
| "spec_calls (DirHandle p) = [Call_rmtree p]"

section \<open>A file system to run the methods on\<close>

text \<open>
  A host with the documented behaviour of the five library functions on a file system
  of regular files and directories, named by absolute paths without a trailing slash.
  It does not model permissions, links or the current directory.
\<close>

datatype errno = EBADF | ENOENT | EISDIR | ENOTDIR | EEXIST

datatype exn = OSError errno | RuntimeError string

text \<open>
  The keyword arguments of the two create functions; \<open>None\<close> is an argument left out.
\<close>

record mkargs =
  arg_suffix :: "string option"
  arg_prefix :: "string option"
  arg_dir :: "path option"

text \<open>
  \<open>names\<close> are the random names the \<^verbatim>\<open>tempfile\<close> module will draw, in order, and
  \<open>tmpdir\<close> is what \<^verbatim>\<open>tempfile.gettempdir()\<close> returns.
\<close>

record fs =
  files :: "path list"
  dirs :: "path list"
  open_fds :: "fd list"
  names :: "string list"
  tmpdir :: path

definition path_exists :: "fs \<Rightarrow> path \<Rightarrow> bool" where
  "path_exists w p = (p \<in> set (files w) \<or> p \<in> set (dirs w))"

text \<open>\<open>inside d p\<close>: the path \<open>p\<close> lies below the directory \<open>d\<close>.\<close>

definition inside :: "path \<Rightarrow> path \<Rightarrow> bool" where
  "inside d p = prefix (d @ ''/'') p"

text \<open>
  The create functions try the names in turn and take the first one whose path does
  not exist; when every name is taken they raise \<^verbatim>\<open>FileExistsError\<close>.
\<close>

fun candidate :: "fs \<Rightarrow> path \<Rightarrow> string \<Rightarrow> string \<Rightarrow> string list \<Rightarrow> (path \<times> string list) option" where
  "candidate w d pre suf [] = None"
| "candidate w d pre suf (n # ns) =
     (let file = d @ ''/'' @ pre @ n @ suf in
      if path_exists w file then candidate w d pre suf ns else Some (file, ns))"

definition mk_dir :: "fs \<Rightarrow> mkargs \<Rightarrow> path" where
  "mk_dir w args = (case arg_dir args of None \<Rightarrow> tmpdir w | Some d \<Rightarrow> d)"

definition mk_prefix :: "mkargs \<Rightarrow> string" where
  "mk_prefix args = (case arg_prefix args of None \<Rightarrow> ''tmp'' | Some s \<Rightarrow> s)"

definition mk_suffix :: "mkargs \<Rightarrow> string" where
  "mk_suffix args = (case arg_suffix args of None \<Rightarrow> [] | Some s \<Rightarrow> s)"

text \<open>A descriptor that is not open; 0, 1 and 2 are the standard streams.\<close>

definition new_fd :: "fd list \<Rightarrow> fd" where
  "new_fd fds = 1 + fold max fds 2"

definition fs_mkstemp :: "mkargs \<Rightarrow> fs \<Rightarrow> (exn + fd \<times> path) \<times> fs" where
  "fs_mkstemp args w =
     (if mk_dir w args \<in> set (files w) then (Inl (OSError ENOTDIR), w)
      else if mk_dir w args \<notin> set (dirs w) then (Inl (OSError ENOENT), w)
      else case candidate w (mk_dir w args) (mk_prefix args) (mk_suffix args) (names w) of
        None \<Rightarrow> (Inl (OSError EEXIST), w\<lparr>names := []\<rparr>)
      | Some (file, ns) \<Rightarrow>
          (Inr (new_fd (open_fds w), file),
           w\<lparr>files := files w @ [file],
             open_fds := open_fds w @ [new_fd (open_fds w)],
             names := ns\<rparr>))"

definition fs_mkdtemp :: "mkargs \<Rightarrow> fs \<Rightarrow> (exn + path) \<times> fs" where
  "fs_mkdtemp args w =
     (if mk_dir w args \<in> set (files w) then (Inl (OSError ENOTDIR), w)
      else if mk_dir w args \<notin> set (dirs w) then (Inl (OSError ENOENT), w)
      else case candidate w (mk_dir w args) (mk_prefix args) (mk_suffix args) (names w) of
        None \<Rightarrow> (Inl (OSError EEXIST), w\<lparr>names := []\<rparr>)
      | Some (file, ns) \<Rightarrow> (Inr file, w\<lparr>dirs := dirs w @ [file], names := ns\<rparr>))"

text \<open>\<^verbatim>\<open>os.close\<close> raises on a descriptor that is not open.\<close>

definition fs_close :: "fd \<Rightarrow> fs \<Rightarrow> (exn + unit) \<times> fs" where
  "fs_close f w =
     (if f \<in> set (open_fds w) then (Inr (), w\<lparr>open_fds := removeAll f (open_fds w)\<rparr>)
      else (Inl (OSError EBADF), w))"

text \<open>\<^verbatim>\<open>os.unlink\<close> removes a regular file and raises on a directory and on a missing path.\<close>

definition fs_unlink :: "path \<Rightarrow> fs \<Rightarrow> (exn + unit) \<times> fs" where
  "fs_unlink p w =
     (if p \<in> set (dirs w) then (Inl (OSError EISDIR), w)
      else if p \<in> set (files w) then (Inr (), w\<lparr>files := removeAll p (files w)\<rparr>)
      else (Inl (OSError ENOENT), w))"

text \<open>
  \<^verbatim>\<open>shutil.rmtree\<close> removes a directory with everything below it and raises on a
  regular file and on a missing path.
\<close>

definition fs_rmtree :: "path \<Rightarrow> fs \<Rightarrow> (exn + unit) \<times> fs" where
  "fs_rmtree p w =
     (if p \<in> set (files w) then (Inl (OSError ENOTDIR), w)
      else if p \<in> set (dirs w) then
        (Inr (), w\<lparr>files := filter (\<lambda>q. \<not> inside p q) (files w),
                   dirs := filter (\<lambda>q. q \<noteq> p \<and> \<not> inside p q) (dirs w)\<rparr>)
      else (Inl (OSError ENOENT), w))"

definition posix :: "(fs, exn, mkargs) host" where
  "posix =
     \<lparr>tempfile_mkstemp = fs_mkstemp,
      tempfile_mkdtemp = fs_mkdtemp,
      os_close = fs_close,
      os_unlink = fs_unlink,
      shutil_rmtree = fs_rmtree\<rparr>"

text \<open>A file system with an empty temporary directory, and the default arguments.\<close>

definition fs0 :: fs where
  "fs0 = \<lparr>files = [], dirs = [''/tmp''], open_fds = [0, 1, 2],
          names = [''a'', ''b'', ''c'', ''d''], tmpdir = ''/tmp''\<rparr>"

definition no_args :: mkargs where
  "no_args = \<lparr>arg_suffix = None, arg_prefix = None, arg_dir = None\<rparr>"

subsection \<open>Blocks and scenarios\<close>

text \<open>
  The block of a \<^verbatim>\<open>with\<close> statement that makes the calls \<open>cs\<close> on the manager and
  then returns, and the block that makes them and then raises \<open>e\<close>.
\<close>

definition block_of ::
  "('w, 'e, 'a) host \<Rightarrow> 'a op list \<Rightarrow> Tempfile \<Rightarrow> 'w \<Rightarrow> ('e + unit) \<times> Tempfile \<times> 'w" where
  "block_of H cs t w = (Inr (), run H cs (t, w))"

definition raising_block ::
  "('w, 'e, 'a) host \<Rightarrow> 'a op list \<Rightarrow> 'e \<Rightarrow> Tempfile \<Rightarrow> 'w \<Rightarrow> ('e + unit) \<times> Tempfile \<times> 'w" where
  "raising_block H cs e t w = (Inl e, run H cs (t, w))"

text \<open>
  The calls of the repository's test \<^verbatim>\<open>test_with_context\<close>: two files and two
  directories.
\<close>

definition test_ops :: "mkargs op list" where
  "test_ops = [Op_mkstemp no_args, Op_mkstemp no_args, Op_mkdtemp no_args, Op_mkdtemp no_args]"

text \<open>
  A directory, a second directory created inside the first with the argument
  \<^verbatim>\<open>dir\<close>, and a file.
\<close>

definition nested_ops :: "mkargs op list" where
  "nested_ops =
     [Op_mkdtemp no_args,
      Op_mkdtemp (no_args\<lparr>arg_dir := Some ''/tmp/tmpa''\<rparr>),
      Op_mkstemp no_args]"

text \<open>The manager and the file system after these calls, from a new manager.\<close>

definition test_state :: "Tempfile \<times> fs" where
  "test_state = run posix test_ops (Tempfile_init, fs0)"

definition nested_state :: "Tempfile \<times> fs" where
  "nested_state = run posix nested_ops (Tempfile_init, fs0)"

section \<open>Properties that hold on every host\<close>


lemma cleanup_returns:
  "cleanup H self w = (Inr u, self', w') \<longleftrightarrow>
     cleanup_loop H (paths self) w = (Inr (), w') \<and> self' = self\<lparr>paths := []\<rparr>"
  by (auto simp: cleanup_def split: prod.splits sum.splits)

lemma cleanup_raises:
  "cleanup H self w = (Inl e, self', w') \<longleftrightarrow>
     cleanup_loop H (paths self) w = (Inl e, w') \<and> self' = self"
  by (auto simp: cleanup_def split: prod.splits sum.splits)

lemma traced_simps [simp]:
  "tempfile_mkstemp (traced H) args (w, tr) =
     (case tempfile_mkstemp H args w of (r, w') \<Rightarrow> (r, (w', tr @ [Call_mkstemp args r])))"
  "tempfile_mkdtemp (traced H) args (w, tr) =
     (case tempfile_mkdtemp H args w of (r, w') \<Rightarrow> (r, (w', tr @ [Call_mkdtemp args r])))"
  "os_close (traced H) f (w, tr) =
     (case os_close H f w of (r, w') \<Rightarrow> (r, (w', tr @ [Call_close f])))"
  "os_unlink (traced H) p (w, tr) =
     (case os_unlink H p w of (r, w') \<Rightarrow> (r, (w', tr @ [Call_unlink p])))"
  "shutil_rmtree (traced H) p (w, tr) =
     (case shutil_rmtree H p w of (r, w') \<Rightarrow> (r, (w', tr @ [Call_rmtree p])))"
  by (simp_all add: traced_def)

lemma cleanup_entry_traced:
  assumes "cleanup_entry (traced H) h (w, tr) = (r, (w', tr'))"
  shows "cleanup_entry H h w = (r, w')"
    and "\<exists>cs. tr' = tr @ cs \<and> cs \<noteq> [] \<and> prefix cs (spec_calls h)"
    and "isl r \<or> tr' = tr @ spec_calls h"
  using assms by (cases h; auto split: prod.splits sum.splits)+

lemma cleanup_loop_traced_returns:
  "cleanup_loop (traced H) hs (w, tr) = (Inr u, (w', tr')) \<Longrightarrow>
     tr' = tr @ concat (map spec_calls hs) \<and> cleanup_loop H hs w = (Inr (), w')"
proof (induction hs arbitrary: w tr)
  case Nil
  then show ?case by simp
next
  case (Cons h hs)
  from Cons.prems obtain w1 tr1 where
    h: "cleanup_entry (traced H) h (w, tr) = (Inr (), (w1, tr1))" and
    rest: "cleanup_loop (traced H) hs (w1, tr1) = (Inr u, (w', tr'))"
    by (auto split: prod.splits sum.splits)
  from cleanup_entry_traced(1)[OF h] cleanup_entry_traced(3)[OF h] Cons.IH[OF rest]
  show ?case by simp
qed

lemma cleanup_loop_traced_raises:
  "cleanup_loop (traced H) hs (w, tr) = (Inl e, (w', tr')) \<Longrightarrow>
     (\<exists>cs. tr' = tr @ cs \<and> cs \<noteq> [] \<and> prefix cs (concat (map spec_calls hs))) \<and>
     cleanup_loop H hs w = (Inl e, w')"
proof (induction hs arbitrary: w tr)
  case Nil
  then show ?case by simp
next
  case (Cons h hs)
  show ?case
  proof -
    obtain r w1 tr1 where h: "cleanup_entry (traced H) h (w, tr) = (r, (w1, tr1))"
      by (metis surj_pair)
    show ?thesis
    proof (cases r)
      case (Inl e1)
      with h Cons.prems have eq: "e1 = e" "w1 = w'" "tr1 = tr'" by auto
      from cleanup_entry_traced(1,2)[OF h] Inl eq show ?thesis
        by (auto simp: prefix_def)
    next
      case (Inr u)
      with h Cons.prems have rest: "cleanup_loop (traced H) hs (w1, tr1) = (Inl e, (w', tr'))"
        by simp
      from cleanup_entry_traced(3)[OF h] Inr have tr1: "tr1 = tr @ spec_calls h" by simp
      from Cons.IH[OF rest] cleanup_entry_traced(1)[OF h] Inr tr1 show ?thesis
        by (auto simp: prefix_def)
    qed
  qed
qed

lemma produced_append: "produced (xs @ ys) = produced xs @ produced ys"
  by (induction xs rule: produced.induct) simp_all

lemma produced_deletions:
  "set cs \<subseteq> set (concat (map spec_calls hs)) \<Longrightarrow> produced cs = []"
proof (induction cs)
  case Nil
  then show ?case by simp
next
  case (Cons c cs)
  then obtain h where "c \<in> set (spec_calls h)" by auto
  then have "produced (c # cs) = produced cs" by (cases h) auto
  with Cons show ?case by simp
qed

lemma produced_prefix_deletions:
  assumes "prefix cs (concat (map spec_calls hs))"
  shows "produced cs = []"
proof -
  from set_mono_prefix[OF assms] show ?thesis by (rule produced_deletions)
qed

lemma cleanup_traced_calls:
  assumes "cleanup (traced H) self (w, tr) = (r, self', (w', tr'))"
  shows "\<exists>cs. tr' = tr @ cs \<and> prefix cs (concat (map spec_calls (paths self)))"
proof (cases r)
  case (Inl e)
  with assms have "cleanup_loop (traced H) (paths self) (w, tr) = (Inl e, (w', tr'))"
    by (simp add: cleanup_raises)
  from cleanup_loop_traced_raises[OF this] show ?thesis by blast
next
  case (Inr u)
  with assms have "cleanup_loop (traced H) (paths self) (w, tr) = (Inr (), (w', tr'))"
    by (simp add: cleanup_returns)
  from cleanup_loop_traced_returns[OF this] show ?thesis by auto
qed

lemma cleanup_paths:
  "cleanup H self w = (r, self', w') \<Longrightarrow> paths self' = [] \<or> paths self' = paths self"
  by (cases r) (auto simp: cleanup_returns cleanup_raises)

lemma step_traced:
  assumes "step (traced H) c (self, (w, tr)) = (self', (w', tr'))"
  shows "\<exists>new. tr' = tr @ new \<and>
           (paths self' = paths self @ produced new \<or>
            paths self' = [] \<and> produced new = [] \<and> (c = Op_cleanup \<or> c = Op_exit))"
proof (cases c)
  case (Op_mkstemp args)
  with assms show ?thesis
    by (auto simp: mkstemp_def split: prod.splits sum.splits)
next
  case (Op_mkdtemp args)
  with assms show ?thesis
    by (auto simp: mkdtemp_def split: prod.splits sum.splits)
next
  case Op_cleanup
  obtain r where c: "cleanup (traced H) self (w, tr) = (r, self', (w', tr'))"
    using assms Op_cleanup by (cases "cleanup (traced H) self (w, tr)") auto
  from cleanup_traced_calls[OF c] obtain cs where
    cs: "tr' = tr @ cs" "prefix cs (concat (map spec_calls (paths self)))" by blast
  from cs(2) have "produced cs = []"
    by (rule produced_prefix_deletions)
  with cs(1) cleanup_paths[OF c] Op_cleanup show ?thesis by auto
next
  case Op_enter
  with assms show ?thesis by (simp add: Tempfile_enter_def)
next
  case Op_exit
  obtain r where c: "cleanup (traced H) self (w, tr) = (r, self', (w', tr'))"
    using assms Op_exit
    by (cases "cleanup (traced H) self (w, tr)") (auto simp: Tempfile_exit_def)
  from cleanup_traced_calls[OF c] obtain cs where
    cs: "tr' = tr @ cs" "prefix cs (concat (map spec_calls (paths self)))" by blast
  from cs(2) have "produced cs = []"
    by (rule produced_prefix_deletions)
  with cs(1) cleanup_paths[OF c] Op_exit show ?thesis by auto
qed

lemma run_traced:
  "run (traced H) cs (self, (w, tr)) = (self', (w', tr')) \<Longrightarrow>
     \<exists>new. tr' = tr @ new \<and>
       (paths self' = paths self @ produced new \<or> suffix (paths self') (produced new))"
proof (induction cs arbitrary: self w tr)
  case Nil
  then show ?case by simp
next
  case (Cons c cs)
  obtain self1 w1 tr1 where s: "step (traced H) c (self, (w, tr)) = (self1, (w1, tr1))"
    by (metis surj_pair)
  with Cons.prems have r: "run (traced H) cs (self1, (w1, tr1)) = (self', (w', tr'))" by simp
  from step_traced[OF s] obtain n1 where
    n1: "tr1 = tr @ n1"
        "paths self1 = paths self @ produced n1 \<or> paths self1 = [] \<and> produced n1 = []" by blast
  from Cons.IH[OF r] obtain n2 where
    n2: "tr' = tr1 @ n2"
        "paths self' = paths self1 @ produced n2 \<or> suffix (paths self') (produced n2)" by blast
  have tr: "tr' = tr @ (n1 @ n2)" using n1(1) n2(1) by simp
  have "paths self' = paths self @ produced (n1 @ n2) \<or> suffix (paths self') (produced (n1 @ n2))"
    using n1(2) n2(2) by (auto simp: produced_append suffix_def)
  with tr show ?case by blast
qed

section \<open>Properties of the methods on the file system\<close>

lemmas fs_eval =
  posix_def fs_mkstemp_def fs_mkdtemp_def fs_close_def fs_unlink_def fs_rmtree_def
  mk_dir_def mk_prefix_def mk_suffix_def new_fd_def path_exists_def inside_def
  fs0_def no_args_def

lemmas method_eval =
  Tempfile_init_def mkstemp_def mkdtemp_def cleanup_def Tempfile_enter_def Tempfile_exit_def
  with_Tempfile_def

lemma posix_simps [simp]:
  "os_close posix = fs_close" "os_unlink posix = fs_unlink" "shutil_rmtree posix = fs_rmtree"
  "tempfile_mkstemp posix = fs_mkstemp" "tempfile_mkdtemp posix = fs_mkdtemp"
  by (simp_all add: posix_def)

lemma fs_close_nodes:
  "fs_close f w = (r, w') \<Longrightarrow> files w' = files w \<and> dirs w' = dirs w"
  by (auto simp: fs_close_def split: if_splits)

lemma fs_unlink_shrinks:
  "fs_unlink p w = (r, w') \<Longrightarrow> set (files w') \<subseteq> set (files w) \<and> dirs w' = dirs w"
  by (auto simp: fs_unlink_def split: if_splits)

lemma fs_unlink_removes:
  "fs_unlink p w = (Inr u, w') \<Longrightarrow> \<not> path_exists w' p"
  by (auto simp: fs_unlink_def path_exists_def split: if_splits)

lemma fs_rmtree_shrinks:
  "fs_rmtree p w = (r, w') \<Longrightarrow> set (files w') \<subseteq> set (files w) \<and> set (dirs w') \<subseteq> set (dirs w)"
  by (auto simp: fs_rmtree_def split: if_splits)

lemma fs_rmtree_removes:
  "fs_rmtree p w = (Inr u, w') \<Longrightarrow> \<not> path_exists w' p"
  by (auto simp: fs_rmtree_def path_exists_def split: if_splits)

lemma cleanup_entry_shrinks:
  "cleanup_entry posix h w = (r, w') \<Longrightarrow>
     set (files w') \<subseteq> set (files w) \<and> set (dirs w') \<subseteq> set (dirs w)"
proof (cases h)
  case (FileHandle f p)
  assume a: "cleanup_entry posix h w = (r, w')"
  obtain r1 w1 where c: "fs_close f w = (r1, w1)" by (metis surj_pair)
  show ?thesis
  proof (cases r1)
    case (Inl e)
    with a c FileHandle have "w' = w1" by simp
    with fs_close_nodes[OF c] show ?thesis by simp
  next
    case (Inr u)
    with a c FileHandle have "fs_unlink p w1 = (r, w')" by simp
    from fs_unlink_shrinks[OF this] fs_close_nodes[OF c] show ?thesis by simp
  qed
next
  case (DirHandle p)
  assume "cleanup_entry posix h w = (r, w')"
  with DirHandle have "fs_rmtree p w = (r, w')" by simp
  from fs_rmtree_shrinks[OF this] show ?thesis .
qed

lemma cleanup_entry_removes:
  "cleanup_entry posix h w = (Inr u, w') \<Longrightarrow> \<not> path_exists w' (handle_path h)"
  by (cases h) (auto split: prod.splits sum.splits dest: fs_unlink_removes fs_rmtree_removes)

lemma cleanup_loop_shrinks:
  "cleanup_loop posix hs w = (r, w') \<Longrightarrow>
     set (files w') \<subseteq> set (files w) \<and> set (dirs w') \<subseteq> set (dirs w)"
proof (induction hs arbitrary: w)
  case Nil
  then show ?case by simp
next
  case (Cons h hs)
  obtain r1 w1 where h: "cleanup_entry posix h w = (r1, w1)" by (metis surj_pair)
  show ?case
  proof (cases r1)
    case (Inl e)
    with h Cons.prems have "w' = w1" by simp
    with cleanup_entry_shrinks[OF h] show ?thesis by simp
  next
    case (Inr u)
    with h Cons.prems have "cleanup_loop posix hs w1 = (r, w')" by simp
    from Cons.IH[OF this] cleanup_entry_shrinks[OF h] show ?thesis by blast
  qed
qed

lemma cleanup_loop_removes:
  "cleanup_loop posix hs w = (Inr u, w') \<Longrightarrow> h \<in> set hs \<Longrightarrow> \<not> path_exists w' (handle_path h)"
proof (induction hs arbitrary: w)
  case Nil
  then show ?case by simp
next
  case (Cons x hs)
  from Cons.prems(1) obtain w1 where
    x: "cleanup_entry posix x w = (Inr (), w1)" and rest: "cleanup_loop posix hs w1 = (Inr u, w')"
    by (auto split: prod.splits sum.splits)
  show ?case
  proof (cases "h \<in> set hs")
    case True
    with Cons.IH[OF rest] show ?thesis by simp
  next
    case False
    with Cons.prems(2) have "h = x" by simp
    with cleanup_entry_removes[OF x] cleanup_loop_shrinks[OF rest] show ?thesis
      by (auto simp: path_exists_def)
  qed
qed

lemma candidate_fresh:
  "candidate w d pre suf ns = Some (file, ns') \<Longrightarrow> \<not> path_exists w file"
  by (induction ns) (auto simp: Let_def split: if_splits)

lemma fs_mkstemp_grows:
  "fs_mkstemp args w = (r, w') \<Longrightarrow> set (files w) \<subseteq> set (files w') \<and> dirs w' = dirs w"
  by (auto simp: fs_mkstemp_def split: if_splits option.splits)

lemma fs_mkstemp_creates:
  "fs_mkstemp args w = (Inr (f, p), w') \<Longrightarrow> \<not> path_exists w p \<and> path_exists w' p"
  by (auto simp: fs_mkstemp_def path_exists_def split: if_splits option.splits
      dest!: candidate_fresh)

lemma fs_mkdtemp_grows:
  "fs_mkdtemp args w = (r, w') \<Longrightarrow> files w' = files w \<and> set (dirs w) \<subseteq> set (dirs w')"
  by (auto simp: fs_mkdtemp_def split: if_splits option.splits)

lemma fs_mkdtemp_creates:
  "fs_mkdtemp args w = (Inr p, w') \<Longrightarrow> \<not> path_exists w p \<and> path_exists w' p"
  by (auto simp: fs_mkdtemp_def path_exists_def split: if_splits option.splits
      dest!: candidate_fresh)

lemma create_step_exists:
  assumes "is_create c"
    and "\<forall>h \<in> set (paths self). path_exists w (handle_path h)"
    and "step posix c (self, w) = (self', w')"
  shows "\<forall>h \<in> set (paths self'). path_exists w' (handle_path h)"
proof (cases c)
  case (Op_mkstemp args)
  obtain r w1 where lib: "fs_mkstemp args w = (r, w1)" by (metis surj_pair)
  from fs_mkstemp_grows[OF lib] assms(2)
  have old: "\<forall>h \<in> set (paths self). path_exists w1 (handle_path h)"
    by (auto simp: path_exists_def)
  show ?thesis
  proof (cases r)
    case (Inl e)
    with lib assms(3) Op_mkstemp old show ?thesis by (simp add: mkstemp_def)
  next
    case (Inr fp)
    obtain f p where fp: "fp = (f, p)" by (cases fp)
    from lib Inr fp fs_mkstemp_creates have "path_exists w1 p" by blast
    with lib Inr fp assms(3) Op_mkstemp old show ?thesis by (auto simp: mkstemp_def)
  qed
next
  case (Op_mkdtemp args)
  obtain r w1 where lib: "fs_mkdtemp args w = (r, w1)" by (metis surj_pair)
  from fs_mkdtemp_grows[OF lib] assms(2)
  have old: "\<forall>h \<in> set (paths self). path_exists w1 (handle_path h)"
    by (auto simp: path_exists_def)
  show ?thesis
  proof (cases r)
    case (Inl e)
    with lib assms(3) Op_mkdtemp old show ?thesis by (simp add: mkdtemp_def)
  next
    case (Inr p)
    from lib Inr fs_mkdtemp_creates have "path_exists w1 p" by blast
    with lib Inr assms(3) Op_mkdtemp old show ?thesis by (auto simp: mkdtemp_def)
  qed
qed (use assms(1) in simp_all)

lemma create_run_exists:
  "list_all is_create cs \<Longrightarrow>
   \<forall>h \<in> set (paths self). path_exists w (handle_path h) \<Longrightarrow>
   run posix cs (self, w) = (self', w') \<Longrightarrow>
   \<forall>h \<in> set (paths self'). path_exists w' (handle_path h)"
proof (induction cs arbitrary: self w)
  case Nil
  then show ?case by simp
next
  case (Cons c cs)
  obtain self1 w1 where s: "step posix c (self, w) = (self1, w1)" by (metis surj_pair)
  from Cons.prems(1) have c: "is_create c" and cs: "list_all is_create cs" by simp_all
  from create_step_exists[OF c Cons.prems(2) s]
  have inv: "\<forall>h \<in> set (paths self1). path_exists w1 (handle_path h)" .
  from Cons.prems(3) s have "run posix cs (self1, w1) = (self', w')" by simp
  from Cons.IH[OF cs inv this] show ?case .
qed

lemma step_paths:
  assumes "step H c (self, w) = (self', w')"
  shows "paths self' = paths self \<or>
         (\<exists>h. paths self' = paths self @ [h]) \<and> (\<exists>a. c = Op_mkstemp a \<or> c = Op_mkdtemp a) \<or>
         paths self' = [] \<and> (c = Op_cleanup \<or> c = Op_exit)"
proof (cases c)
  case (Op_mkstemp args)
  with assms show ?thesis by (auto simp: mkstemp_def split: prod.splits sum.splits)
next
  case (Op_mkdtemp args)
  with assms show ?thesis by (auto simp: mkdtemp_def split: prod.splits sum.splits)
next
  case Op_cleanup
  with assms obtain r where "cleanup H self w = (r, self', w')"
    by (cases "cleanup H self w") auto
  from cleanup_paths[OF this] Op_cleanup show ?thesis by auto
next
  case Op_enter
  with assms show ?thesis by (simp add: Tempfile_enter_def)
next
  case Op_exit
  with assms obtain r where "cleanup H self w = (r, self', w')"
    by (cases "cleanup H self w") (auto simp: Tempfile_exit_def)
  from cleanup_paths[OF this] Op_exit show ?thesis by auto
qed

lemma produced_FileHandle:
  "FileHandle f p \<in> set (produced tr) \<longleftrightarrow> (\<exists>a. Call_mkstemp a (Inr (f, p)) \<in> set tr)"
  by (induction tr rule: produced.induct) auto

lemma produced_DirHandle:
  "DirHandle q \<in> set (produced tr) \<longleftrightarrow> (\<exists>a. Call_mkdtemp a (Inr q) \<in> set tr)"
  by (induction tr rule: produced.induct) auto

lemma spec_calls_close: "Call_close f \<in> set (spec_calls h) \<Longrightarrow> \<exists>p. h = FileHandle f p"
  by (cases h) auto

lemma spec_calls_unlink: "Call_unlink p \<in> set (spec_calls h) \<Longrightarrow> \<exists>f. h = FileHandle f p"
  by (cases h) auto

lemma spec_calls_rmtree: "Call_rmtree p \<in> set (spec_calls h) \<Longrightarrow> h = DirHandle p"
  by (cases h) auto

lemma step_traced_inv:
  assumes "set (paths self) \<subseteq> set (produced tr)"
    and "step (traced H) c (self, (w, tr)) = (self1, (w1, tr1))"
  shows "set (paths self1) \<subseteq> set (produced tr1)"
proof -
  from step_traced[OF assms(2)] obtain new where
    "tr1 = tr @ new" "paths self1 = paths self @ produced new \<or> paths self1 = []" by blast
  with assms(1) show ?thesis by (auto simp: produced_append)
qed

lemma cleanup_entry_calls:
  assumes "cleanup_entry (traced H) h (w, tr) = (r, (w', tr'))"
  shows "is_tuple h \<longrightarrow>
           (\<exists>f p. h = FileHandle f p \<and>
              (tr' = tr @ [Call_close f] \<or> tr' = tr @ [Call_close f, Call_unlink p]))"
    and "\<not> is_tuple h \<longrightarrow> (\<exists>p. h = DirHandle p \<and> tr' = tr @ [Call_rmtree p])"
  using assms by (cases h; auto split: prod.splits sum.splits)+

lemma cleanup_calls_of_tracked:
  assumes "cleanup (traced H) self (w, tr) = (r, self', (w', tr'))"
  shows "\<exists>cs. tr' = tr @ cs \<and>
           (\<forall>f. Call_close f \<in> set cs \<longrightarrow> (\<exists>p. FileHandle f p \<in> set (paths self))) \<and>
           (\<forall>p. Call_unlink p \<in> set cs \<longrightarrow> (\<exists>f. FileHandle f p \<in> set (paths self))) \<and>
           (\<forall>p. Call_rmtree p \<in> set cs \<longrightarrow> DirHandle p \<in> set (paths self)) \<and>
           (\<forall>a x. Call_mkstemp a x \<notin> set cs) \<and> (\<forall>a y. Call_mkdtemp a y \<notin> set cs)"
proof -
  from cleanup_traced_calls[OF assms] obtain cs where
    cs: "tr' = tr @ cs" "prefix cs (concat (map spec_calls (paths self)))" by blast
  from set_mono_prefix[OF cs(2)] have
    sub: "\<And>c. c \<in> set cs \<Longrightarrow> \<exists>h \<in> set (paths self). c \<in> set (spec_calls h)" by auto
  have 1: "\<forall>f. Call_close f \<in> set cs \<longrightarrow> (\<exists>p. FileHandle f p \<in> set (paths self))"
    using sub spec_calls_close by blast
  have 2: "\<forall>p. Call_unlink p \<in> set cs \<longrightarrow> (\<exists>f. FileHandle f p \<in> set (paths self))"
    using sub spec_calls_unlink by blast
  have 3: "\<forall>p. Call_rmtree p \<in> set cs \<longrightarrow> DirHandle p \<in> set (paths self)"
    using sub spec_calls_rmtree by blast
  have 4: "\<forall>a x. Call_mkstemp a x \<notin> set cs"
  proof (intro allI notI)
    fix a x
    assume "Call_mkstemp a x \<in> set cs"
    from sub[OF this] obtain h where "Call_mkstemp a x \<in> set (spec_calls h)" by blast
    then show False by (cases h) simp_all
  qed
  have 5: "\<forall>a y. Call_mkdtemp a y \<notin> set cs"
  proof (intro allI notI)
    fix a y
    assume "Call_mkdtemp a y \<in> set cs"
    from sub[OF this] obtain h where "Call_mkdtemp a y \<in> set (spec_calls h)" by blast
    then show False by (cases h) simp_all
  qed
  from cs(1) 1 2 3 4 5 show ?thesis by blast
qed

subsection \<open>The scenarios, evaluated\<close>

lemma test_state_eq:
  "test_state =
     (\<lparr>paths = [FileHandle 3 ''/tmp/tmpa'', FileHandle 4 ''/tmp/tmpb'',
                DirHandle ''/tmp/tmpc'', DirHandle ''/tmp/tmpd'']\<rparr>,
      \<lparr>files = [''/tmp/tmpa'', ''/tmp/tmpb''], dirs = [''/tmp'', ''/tmp/tmpc'', ''/tmp/tmpd''],
       open_fds = [0, 1, 2, 3, 4], names = [], tmpdir = ''/tmp''\<rparr>)"
  by (simp add: test_state_def fs_eval method_eval test_ops_def)

lemma nested_state_eq:
  "nested_state =
     (\<lparr>paths = [DirHandle ''/tmp/tmpa'', DirHandle ''/tmp/tmpa/tmpb'', FileHandle 3 ''/tmp/tmpc'']\<rparr>,
      \<lparr>files = [''/tmp/tmpc''], dirs = [''/tmp'', ''/tmp/tmpa'', ''/tmp/tmpa/tmpb''],
       open_fds = [0, 1, 2, 3], names = [''d''], tmpdir = ''/tmp''\<rparr>)"
  by (simp add: nested_state_def fs_eval method_eval nested_ops_def)

section \<open>The claims\<close>

text \<open>
  C1: \<^verbatim>\<open>cleanup\<close> goes through the tracked handles in the order of the list. On every
  host the library calls it makes are an initial part of the calls the specification
  prescribes for the handles in that order (close then unlink for a file handle,
  rmtree for a directory handle), and all of them when it returns, and then the tracked
  list is empty. On the file system, every path tracked after a sequence of create
  calls on a new manager exists, and when \<^verbatim>\<open>cleanup\<close> returns no tracked path exists
  any more.
\<close>

theorem cleanup_removes_all:
  "(cleanup (traced H) self (w, tr) = (r, self', (w', tr')) \<longrightarrow>
      (\<exists>cs. tr' = tr @ cs \<and> prefix cs (concat (map spec_calls (paths self))) \<and>
            (\<forall>u. r = Inr u \<longrightarrow>
               cs = concat (map spec_calls (paths self)) \<and> paths self' = []))) \<and>
   (list_all is_create ops \<longrightarrow> run posix ops (Tempfile_init, v0) = (self, v) \<longrightarrow>
      (\<forall>h \<in> set (paths self). path_exists v (handle_path h))) \<and>
   (cleanup posix self v = (Inr u', self'', v') \<longrightarrow>
      (\<forall>h \<in> set (paths self). \<not> path_exists v' (handle_path h)) \<and> paths self'' = [])"
proof (intro conjI impI)
  assume a: "cleanup (traced H) self (w, tr) = (r, self', (w', tr'))"
  show "\<exists>cs. tr' = tr @ cs \<and> prefix cs (concat (map spec_calls (paths self))) \<and>
          (\<forall>u. r = Inr u \<longrightarrow> cs = concat (map spec_calls (paths self)) \<and> paths self' = [])"
  proof (cases r)
    case (Inl e)
    with cleanup_traced_calls[OF a] show ?thesis by auto
  next
    case (Inr u)
    with a have "cleanup_loop (traced H) (paths self) (w, tr) = (Inr (), (w', tr'))"
      and "paths self' = []"
      by (simp_all add: cleanup_returns)
    with cleanup_loop_traced_returns[of H "paths self" w tr "()" w' tr'] show ?thesis
      by simp
  qed
next
  assume ops: "list_all is_create ops" and built: "run posix ops (Tempfile_init, v0) = (self, v)"
  have "\<forall>h \<in> set (paths Tempfile_init). path_exists v0 (handle_path h)"
    by (simp add: Tempfile_init_def)
  from create_run_exists[OF ops this built]
  show "\<forall>h \<in> set (paths self). path_exists v (handle_path h)" .
next
  assume a: "cleanup posix self v = (Inr u', self'', v')"
  then have "cleanup_loop posix (paths self) v = (Inr (), v')"
    by (simp add: cleanup_returns)
  from cleanup_loop_removes[OF this]
  show "\<forall>h \<in> set (paths self). \<not> path_exists v' (handle_path h)" by blast
  from a show "paths self'' = []" by (simp add: cleanup_returns)
qed

text \<open>
  The test of the repository: two files and two directories are created, all four
  paths exist, and after \<^verbatim>\<open>cleanup\<close> none of them does.
\<close>

theorem cleanup_removes_all_witness:
  "list_all is_create test_ops \<and>
   run posix test_ops (Tempfile_init, fs0) = (fst test_state, snd test_state) \<and>
   paths (fst test_state) =
     [FileHandle 3 ''/tmp/tmpa'', FileHandle 4 ''/tmp/tmpb'',
      DirHandle ''/tmp/tmpc'', DirHandle ''/tmp/tmpd''] \<and>
   path_exists (snd test_state) ''/tmp/tmpa'' \<and> path_exists (snd test_state) ''/tmp/tmpb'' \<and>
   path_exists (snd test_state) ''/tmp/tmpc'' \<and> path_exists (snd test_state) ''/tmp/tmpd'' \<and>
   cleanup (traced posix) (fst test_state) (snd test_state, []) =
     (Inr (), Tempfile_init,
      (fs0\<lparr>names := []\<rparr>,
       [Call_close 3, Call_unlink ''/tmp/tmpa'', Call_close 4, Call_unlink ''/tmp/tmpb'',
        Call_rmtree ''/tmp/tmpc'', Call_rmtree ''/tmp/tmpd''])) \<and>
   cleanup posix (fst test_state) (snd test_state) = (Inr (), Tempfile_init, fs0\<lparr>names := []\<rparr>) \<and>
   \<not> path_exists (fs0\<lparr>names := []\<rparr>) ''/tmp/tmpa'' \<and>
   \<not> path_exists (fs0\<lparr>names := []\<rparr>) ''/tmp/tmpb'' \<and>
   \<not> path_exists (fs0\<lparr>names := []\<rparr>) ''/tmp/tmpc'' \<and>
   \<not> path_exists (fs0\<lparr>names := []\<rparr>) ''/tmp/tmpd''"
  (is "?creates \<and> ?built \<and> ?tracked \<and> ?ea \<and> ?eb \<and> ?ec \<and> ?ed \<and> ?traced \<and> ?plain \<and>
       ?a \<and> ?b \<and> ?c \<and> ?d")
proof -
  have creates: ?creates by (simp add: test_ops_def)
  have built: ?built by (simp add: test_state_def)
  have tracked: ?tracked by (simp add: test_state_eq)
  have traced: ?traced by (simp add: test_state_eq fs_eval method_eval)
  have plain: ?plain by (simp add: test_state_eq fs_eval method_eval)
  note inst = cleanup_removes_all
    [where H = posix and self = "fst test_state" and v = "snd test_state" and ops = test_ops
       and ?v0.0 = fs0 and u' = "()" and self'' = Tempfile_init and v' = "fs0\<lparr>names := []\<rparr>"]
  from inst creates built
  have "\<forall>h \<in> set (paths (fst test_state)). path_exists (snd test_state) (handle_path h)"
    by blast
  with tracked have before: ?ea ?eb ?ec ?ed by simp_all
  from inst plain
  have "\<forall>h \<in> set (paths (fst test_state)). \<not> path_exists (fs0\<lparr>names := []\<rparr>) (handle_path h)"
    by blast
  with tracked have after: ?a ?b ?c ?d by simp_all
  from creates built tracked before traced plain after show ?thesis by blast
qed

text \<open>
  C2, as amended: \<^verbatim>\<open>__enter__\<close> returns the manager, and whether the block returns or
  raises, the \<^verbatim>\<open>with\<close> statement ends in the manager and the world that one call of
  \<^verbatim>\<open>cleanup\<close> leaves, run where the block stopped; it raises what \<^verbatim>\<open>cleanup\<close> raised,
  and otherwise returns or raises what the block did. On the file system, when that
  \<^verbatim>\<open>cleanup\<close> raises nothing, no path tracked at the end of the block exists afterwards
  and the tracked list is empty.
\<close>

theorem with_cleanup_once:
  "(block (Tempfile_enter mgr) w = (r, self1, w1) \<longrightarrow> cleanup H self1 w1 = (r', self2, w2) \<longrightarrow>
      Tempfile_enter mgr = mgr \<and>
      with_Tempfile H mgr block w = ((case r' of Inl e' \<Rightarrow> Inl e' | Inr u \<Rightarrow> r), self2, w2)) \<and>
   (blk (Tempfile_enter mgr) v = (s, self3, v1) \<longrightarrow> cleanup posix self3 v1 = (Inr u', self4, v2) \<longrightarrow>
      with_Tempfile posix mgr blk v = (s, self4, v2) \<and> paths self4 = [] \<and>
      (\<forall>h \<in> set (paths self3). \<not> path_exists v2 (handle_path h)))"
proof (intro conjI impI)
  show "Tempfile_enter mgr = mgr" by (simp add: Tempfile_enter_def)
next
  assume "block (Tempfile_enter mgr) w = (r, self1, w1)" "cleanup H self1 w1 = (r', self2, w2)"
  then show "with_Tempfile H mgr block w = ((case r' of Inl e' \<Rightarrow> Inl e' | Inr u \<Rightarrow> r), self2, w2)"
    by (cases r; cases r') (simp_all add: with_Tempfile_def Tempfile_exit_def)
next
  assume a: "blk (Tempfile_enter mgr) v = (s, self3, v1)" "cleanup posix self3 v1 = (Inr u', self4, v2)"
  then show "with_Tempfile posix mgr blk v = (s, self4, v2)"
    by (cases s) (simp_all add: with_Tempfile_def Tempfile_exit_def)
  from a(2) show "paths self4 = []" by (simp add: cleanup_returns)
  from a(2) have "cleanup_loop posix (paths self3) v1 = (Inr (), v2)"
    by (simp add: cleanup_returns)
  from cleanup_loop_removes[OF this]
  show "\<forall>h \<in> set (paths self3). \<not> path_exists v2 (handle_path h)" by blast
qed

text \<open>
  The scenario of the specification: a directory is created inside the scope and the
  block then raises; the error reaches the caller and the directory is gone.
\<close>

theorem with_cleanup_once_witness:
  "raising_block posix [Op_mkdtemp no_args] (RuntimeError ''boom'') (Tempfile_enter Tempfile_init) fs0 =
     (Inl (RuntimeError ''boom''), \<lparr>paths = [DirHandle ''/tmp/tmpa'']\<rparr>,
      \<lparr>files = [], dirs = [''/tmp'', ''/tmp/tmpa''], open_fds = [0, 1, 2],
       names = [''b'', ''c'', ''d''], tmpdir = ''/tmp''\<rparr>) \<and>
   path_exists
     \<lparr>files = [], dirs = [''/tmp'', ''/tmp/tmpa''], open_fds = [0, 1, 2],
      names = [''b'', ''c'', ''d''], tmpdir = ''/tmp''\<rparr> ''/tmp/tmpa'' \<and>
   cleanup posix \<lparr>paths = [DirHandle ''/tmp/tmpa'']\<rparr>
     \<lparr>files = [], dirs = [''/tmp'', ''/tmp/tmpa''], open_fds = [0, 1, 2],
      names = [''b'', ''c'', ''d''], tmpdir = ''/tmp''\<rparr> =
     (Inr (), Tempfile_init, fs0\<lparr>names := [''b'', ''c'', ''d'']\<rparr>) \<and>
   with_Tempfile posix Tempfile_init
     (raising_block posix [Op_mkdtemp no_args] (RuntimeError ''boom'')) fs0 =
     (Inl (RuntimeError ''boom''), Tempfile_init, fs0\<lparr>names := [''b'', ''c'', ''d'']\<rparr>) \<and>
   \<not> path_exists (fs0\<lparr>names := [''b'', ''c'', ''d'']\<rparr>) ''/tmp/tmpa''"
  (is "?block \<and> ?before \<and> ?exit \<and> ?with \<and> ?gone")
proof -
  have block: ?block by (simp add: raising_block_def fs_eval method_eval)
  have before: ?before by (simp add: path_exists_def)
  have exit: ?exit by (simp add: fs_eval method_eval)
  from with_cleanup_once
    [where blk = "raising_block posix [Op_mkdtemp no_args] (RuntimeError ''boom'')"
       and mgr = Tempfile_init and v = fs0, THEN conjunct2, rule_format, OF block exit]
  have w: ?with
    and g: "\<forall>h \<in> set (paths \<lparr>paths = [DirHandle ''/tmp/tmpa'']\<rparr>).
              \<not> path_exists (fs0\<lparr>names := [''b'', ''c'', ''d'']\<rparr>) (handle_path h)"
    by simp_all
  from g have ?gone by simp
  with block before exit w show ?thesis by blast
qed

text \<open>
  The claim C2 as it is written fails. The block creates a directory, a directory
  inside it and a file, all through the manager, and returns. \<^verbatim>\<open>__exit__\<close> removes the
  first directory and with it the second, raises on the second, and the file, created
  inside the scope, still exists after the \<^verbatim>\<open>with\<close> statement.
\<close>

theorem with_leaves_resource:
  "with_Tempfile posix Tempfile_init (block_of posix nested_ops) fs0 =
     (Inl (OSError ENOENT),
      \<lparr>paths = [DirHandle ''/tmp/tmpa'', DirHandle ''/tmp/tmpa/tmpb'', FileHandle 3 ''/tmp/tmpc'']\<rparr>,
      \<lparr>files = [''/tmp/tmpc''], dirs = [''/tmp''], open_fds = [0, 1, 2, 3],
       names = [''d''], tmpdir = ''/tmp''\<rparr>) \<and>
   path_exists
     \<lparr>files = [''/tmp/tmpc''], dirs = [''/tmp''], open_fds = [0, 1, 2, 3],
      names = [''d''], tmpdir = ''/tmp''\<rparr> ''/tmp/tmpc''"
  by (simp add: block_of_def nested_ops_def fs_eval method_eval)

text \<open>
  C3, as amended: when \<^verbatim>\<open>cleanup\<close> returns, the tracked list is empty and a further
  \<^verbatim>\<open>cleanup\<close> changes nothing; when it raises, the manager is the one it was, with its
  tracked list, which is not empty.
\<close>

theorem cleanup_tracked_after:
  "cleanup H self w = (r, self', w') \<Longrightarrow>
     (case r of
        Inr u \<Rightarrow> paths self' = [] \<and> cleanup H self' w' = (Inr (), self', w')
      | Inl e \<Rightarrow> self' = self \<and> paths self' \<noteq> [])"
  by (cases self) (auto simp: cleanup_def split: prod.splits sum.splits)

theorem cleanup_tracked_after_witness:
  "cleanup posix (fst test_state) (snd test_state) = (Inr (), Tempfile_init, fs0\<lparr>names := []\<rparr>) \<and>
   paths Tempfile_init = [] \<and>
   cleanup posix Tempfile_init (fs0\<lparr>names := []\<rparr>) = (Inr (), Tempfile_init, fs0\<lparr>names := []\<rparr>) \<and>
   cleanup posix (fst nested_state) (snd nested_state) =
     (Inl (OSError ENOENT), fst nested_state,
      \<lparr>files = [''/tmp/tmpc''], dirs = [''/tmp''], open_fds = [0, 1, 2, 3],
       names = [''d''], tmpdir = ''/tmp''\<rparr>) \<and>
   paths (fst nested_state) \<noteq> []"
  (is "?ok \<and> ?empty \<and> ?again \<and> ?raise \<and> ?kept")
proof -
  have ok: ?ok by (simp add: test_state_eq fs_eval method_eval)
  have rs: ?raise by (simp add: nested_state_eq fs_eval method_eval)
  from cleanup_tracked_after[OF ok] have ?empty ?again by simp_all
  moreover from cleanup_tracked_after[OF rs] have ?kept by simp
  ultimately show ?thesis using ok rs by blast
qed

text \<open>
  The claim C3 as it is written fails: the second directory lies inside the first, so
  its removal raises, and the tracked list is then the list of three entries it was. A
  second \<^verbatim>\<open>cleanup\<close> calls \<^verbatim>\<open>shutil.rmtree\<close> on the first directory once more.
\<close>

theorem cleanup_raise_keeps_tracked:
  "cleanup (traced posix) (fst nested_state) (snd nested_state, []) =
     (Inl (OSError ENOENT),
      \<lparr>paths = [DirHandle ''/tmp/tmpa'', DirHandle ''/tmp/tmpa/tmpb'', FileHandle 3 ''/tmp/tmpc'']\<rparr>,
      (\<lparr>files = [''/tmp/tmpc''], dirs = [''/tmp''], open_fds = [0, 1, 2, 3],
        names = [''d''], tmpdir = ''/tmp''\<rparr>,
       [Call_rmtree ''/tmp/tmpa'', Call_rmtree ''/tmp/tmpa/tmpb''])) \<and>
   cleanup (traced posix)
     \<lparr>paths = [DirHandle ''/tmp/tmpa'', DirHandle ''/tmp/tmpa/tmpb'', FileHandle 3 ''/tmp/tmpc'']\<rparr>
     (\<lparr>files = [''/tmp/tmpc''], dirs = [''/tmp''], open_fds = [0, 1, 2, 3],
        names = [''d''], tmpdir = ''/tmp''\<rparr>,
      [Call_rmtree ''/tmp/tmpa'', Call_rmtree ''/tmp/tmpa/tmpb'']) =
     (Inl (OSError ENOENT),
      \<lparr>paths = [DirHandle ''/tmp/tmpa'', DirHandle ''/tmp/tmpa/tmpb'', FileHandle 3 ''/tmp/tmpc'']\<rparr>,
      (\<lparr>files = [''/tmp/tmpc''], dirs = [''/tmp''], open_fds = [0, 1, 2, 3],
        names = [''d''], tmpdir = ''/tmp''\<rparr>,
       [Call_rmtree ''/tmp/tmpa'', Call_rmtree ''/tmp/tmpa/tmpb'', Call_rmtree ''/tmp/tmpa'']))"
  by (simp add: nested_state_eq fs_eval method_eval)



text \<open>
  C5: when the create function of the library raises, the method raises the same
  exception and the manager is the one it was: nothing has been appended to the
  tracked list.
\<close>

theorem create_failure_tracks_nothing:
  "(tempfile_mkstemp H args w = (Inl e, w') \<longrightarrow> mkstemp H args self w = (Inl e, self, w')) \<and>
   (tempfile_mkdtemp H args w = (Inl e, w') \<longrightarrow> mkdtemp H args self w = (Inl e, self, w'))"
  by (simp add: mkstemp_def mkdtemp_def)

text \<open>Creating in a directory that does not exist, on a manager that tracks one entry.\<close>

theorem create_failure_tracks_nothing_witness:
  "tempfile_mkstemp posix (no_args\<lparr>arg_dir := Some ''/gone''\<rparr>) fs0 = (Inl (OSError ENOENT), fs0) \<and>
   mkstemp posix (no_args\<lparr>arg_dir := Some ''/gone''\<rparr>) \<lparr>paths = [DirHandle ''/tmp/x'']\<rparr> fs0 =
     (Inl (OSError ENOENT), \<lparr>paths = [DirHandle ''/tmp/x'']\<rparr>, fs0) \<and>
   tempfile_mkdtemp posix (no_args\<lparr>arg_dir := Some ''/gone''\<rparr>) fs0 = (Inl (OSError ENOENT), fs0) \<and>
   mkdtemp posix (no_args\<lparr>arg_dir := Some ''/gone''\<rparr>) \<lparr>paths = [DirHandle ''/tmp/x'']\<rparr> fs0 =
     (Inl (OSError ENOENT), \<lparr>paths = [DirHandle ''/tmp/x'']\<rparr>, fs0)"
proof -
  have a: "tempfile_mkstemp posix (no_args\<lparr>arg_dir := Some ''/gone''\<rparr>) fs0 =
             (Inl (OSError ENOENT), fs0)"
    by (simp add: fs_eval)
  have b: "tempfile_mkdtemp posix (no_args\<lparr>arg_dir := Some ''/gone''\<rparr>) fs0 =
             (Inl (OSError ENOENT), fs0)"
    by (simp add: fs_eval)
  from a b create_failure_tracks_nothing
    [of posix "no_args\<lparr>arg_dir := Some ''/gone''\<rparr>" fs0 "OSError ENOENT" fs0
        "\<lparr>paths = [DirHandle ''/tmp/x'']\<rparr>"]
  show ?thesis by blast
qed

text \<open>
  C6: with nothing tracked \<^verbatim>\<open>cleanup\<close> returns and leaves the manager and the world
  as they were, so it makes no library call; a \<^verbatim>\<open>cleanup\<close> that follows a
  \<^verbatim>\<open>cleanup\<close> that returned does the same.
\<close>

theorem cleanup_nothing_tracked:
  "(paths self = [] \<longrightarrow> cleanup H self w = (Inr (), self, w)) \<and>
   (cleanup H self w = (Inr u, self', w') \<longrightarrow> cleanup H self' w' = (Inr (), self', w'))"
  by (cases self) (auto simp: cleanup_def split: prod.splits sum.splits)

theorem cleanup_nothing_tracked_witness:
  "paths Tempfile_init = [] \<and>
   cleanup (traced posix) Tempfile_init (fs0, []) = (Inr (), Tempfile_init, (fs0, [])) \<and>
   cleanup (traced posix) (fst test_state) (snd test_state, []) =
     (Inr (), Tempfile_init,
      (fs0\<lparr>names := []\<rparr>,
       [Call_close 3, Call_unlink ''/tmp/tmpa'', Call_close 4, Call_unlink ''/tmp/tmpb'',
        Call_rmtree ''/tmp/tmpc'', Call_rmtree ''/tmp/tmpd''])) \<and>
   cleanup (traced posix) Tempfile_init
      (fs0\<lparr>names := []\<rparr>,
       [Call_close 3, Call_unlink ''/tmp/tmpa'', Call_close 4, Call_unlink ''/tmp/tmpb'',
        Call_rmtree ''/tmp/tmpc'', Call_rmtree ''/tmp/tmpd'']) =
     (Inr (), Tempfile_init,
      (fs0\<lparr>names := []\<rparr>,
       [Call_close 3, Call_unlink ''/tmp/tmpa'', Call_close 4, Call_unlink ''/tmp/tmpb'',
        Call_rmtree ''/tmp/tmpc'', Call_rmtree ''/tmp/tmpd'']))"
  (is "?empty \<and> ?noop \<and> ?first \<and> ?second")
proof -
  have empty: ?empty by (simp add: Tempfile_init_def)
  have first: ?first by (simp add: test_state_eq fs_eval method_eval)
  from cleanup_nothing_tracked[of Tempfile_init "traced posix" "(fs0, [])"] empty
  have ?noop by simp
  moreover from cleanup_nothing_tracked[of "fst test_state" "traced posix" "(snd test_state, [])"]
    first
  have ?second by blast
  ultimately show ?thesis using empty first by blast
qed



text \<open>
  C8: a new manager tracks nothing. A create method that returns appends the handle
  it returns at the end of the tracked list. A call of any method leaves the tracked
  list as it was, or is a create call that appends one entry, or is \<^verbatim>\<open>cleanup\<close> or
  \<^verbatim>\<open>__exit__\<close> and empties the list. So after any sequence of calls on a new manager
  the tracked list is a final part of the handles the library returned, in the order
  in which they were created.
\<close>

theorem tracked_lifecycle:
  "paths Tempfile_init = [] \<and>
   (mkstemp H args self w = (Inr (f, p), self1, w1) \<longrightarrow> paths self1 = paths self @ [FileHandle f p]) \<and>
   (mkdtemp H args self w = (Inr q, self2, w2) \<longrightarrow> paths self2 = paths self @ [DirHandle q]) \<and>
   (step H c (self, w) = (self3, w3) \<longrightarrow>
      paths self3 = paths self \<or>
      (\<exists>h. paths self3 = paths self @ [h]) \<and> (\<exists>a. c = Op_mkstemp a \<or> c = Op_mkdtemp a) \<or>
      paths self3 = [] \<and> (c = Op_cleanup \<or> c = Op_exit)) \<and>
   (run (traced H) cs (Tempfile_init, (w, [])) = (self4, (w4, tr4)) \<longrightarrow>
      suffix (paths self4) (produced tr4))"
proof (intro conjI impI)
  show "paths Tempfile_init = []" by (simp add: Tempfile_init_def)
next
  assume "mkstemp H args self w = (Inr (f, p), self1, w1)"
  then show "paths self1 = paths self @ [FileHandle f p]"
    by (auto simp: mkstemp_def split: prod.splits sum.splits)
next
  assume "mkdtemp H args self w = (Inr q, self2, w2)"
  then show "paths self2 = paths self @ [DirHandle q]"
    by (auto simp: mkdtemp_def split: prod.splits sum.splits)
next
  assume "step H c (self, w) = (self3, w3)"
  then show "paths self3 = paths self \<or>
      (\<exists>h. paths self3 = paths self @ [h]) \<and> (\<exists>a. c = Op_mkstemp a \<or> c = Op_mkdtemp a) \<or>
      paths self3 = [] \<and> (c = Op_cleanup \<or> c = Op_exit)"
    by (rule step_paths)
next
  assume "run (traced H) cs (Tempfile_init, (w, [])) = (self4, (w4, tr4))"
  from run_traced[OF this] show "suffix (paths self4) (produced tr4)"
    by (auto simp: Tempfile_init_def)
qed

theorem tracked_lifecycle_witness:
  "mkstemp posix no_args Tempfile_init fs0 =
     (Inr (3, ''/tmp/tmpa''), \<lparr>paths = [FileHandle 3 ''/tmp/tmpa'']\<rparr>,
      \<lparr>files = [''/tmp/tmpa''], dirs = [''/tmp''], open_fds = [0, 1, 2, 3],
       names = [''b'', ''c'', ''d''], tmpdir = ''/tmp''\<rparr>) \<and>
   mkdtemp posix no_args \<lparr>paths = [FileHandle 3 ''/tmp/tmpa'']\<rparr>
     \<lparr>files = [''/tmp/tmpa''], dirs = [''/tmp''], open_fds = [0, 1, 2, 3],
      names = [''b'', ''c'', ''d''], tmpdir = ''/tmp''\<rparr> =
     (Inr ''/tmp/tmpb'', \<lparr>paths = [FileHandle 3 ''/tmp/tmpa'', DirHandle ''/tmp/tmpb'']\<rparr>,
      \<lparr>files = [''/tmp/tmpa''], dirs = [''/tmp'', ''/tmp/tmpb''], open_fds = [0, 1, 2, 3],
       names = [''c'', ''d''], tmpdir = ''/tmp''\<rparr>) \<and>
   step posix Op_cleanup
     (\<lparr>paths = [FileHandle 3 ''/tmp/tmpa'', DirHandle ''/tmp/tmpb'']\<rparr>,
      \<lparr>files = [''/tmp/tmpa''], dirs = [''/tmp'', ''/tmp/tmpb''], open_fds = [0, 1, 2, 3],
       names = [''c'', ''d''], tmpdir = ''/tmp''\<rparr>) =
     (\<lparr>paths = []\<rparr>, fs0\<lparr>names := [''c'', ''d'']\<rparr>) \<and>
   run (traced posix) [Op_mkstemp no_args, Op_mkdtemp no_args, Op_cleanup, Op_mkstemp no_args]
     (Tempfile_init, (fs0, [])) =
     (\<lparr>paths = [FileHandle 3 ''/tmp/tmpc'']\<rparr>,
      (\<lparr>files = [''/tmp/tmpc''], dirs = [''/tmp''], open_fds = [0, 1, 2, 3],
        names = [''d''], tmpdir = ''/tmp''\<rparr>,
       [Call_mkstemp no_args (Inr (3, ''/tmp/tmpa'')), Call_mkdtemp no_args (Inr ''/tmp/tmpb''),
        Call_close 3, Call_unlink ''/tmp/tmpa'', Call_rmtree ''/tmp/tmpb'',
        Call_mkstemp no_args (Inr (3, ''/tmp/tmpc''))])) \<and>
   suffix [FileHandle 3 ''/tmp/tmpc'']
     [FileHandle 3 ''/tmp/tmpa'', DirHandle ''/tmp/tmpb'', FileHandle 3 ''/tmp/tmpc'']"
  (is "?file \<and> ?dir \<and> ?step \<and> ?run \<and> ?suffix")
proof -
  have f1: ?file by (simp add: fs_eval method_eval)
  have d1: ?dir by (simp add: fs_eval method_eval)
  have s1: ?step by (simp add: fs_eval method_eval)
  have r1: ?run by (simp add: fs_eval method_eval)
  from tracked_lifecycle
    [where H = posix and cs = "[Op_mkstemp no_args, Op_mkdtemp no_args, Op_cleanup, Op_mkstemp no_args]"
       and w = fs0]
    r1
  have "suffix (paths \<lparr>paths = [FileHandle 3 ''/tmp/tmpc'']\<rparr>)
          (produced [Call_mkstemp no_args (Inr (3, ''/tmp/tmpa'')),
             Call_mkdtemp no_args (Inr ''/tmp/tmpb''),
             Call_close 3, Call_unlink ''/tmp/tmpa'', Call_rmtree ''/tmp/tmpb'',
             Call_mkstemp no_args (Inr (3, ''/tmp/tmpc'')) :: (exn, mkargs) call])"
    by blast
  then have ?suffix by simp
  with f1 d1 s1 r1 show ?thesis by blast
qed

text \<open>
  C9: every tracked entry is a pair that \<^verbatim>\<open>tempfile.mkstemp\<close> returned or a path that
  \<^verbatim>\<open>tempfile.mkdtemp\<close> returned; a call of any method keeps this, and it holds after any
  sequence of calls on a new manager. \<^verbatim>\<open>cleanup\<close> treats an entry by its shape alone: a
  pair gets \<^verbatim>\<open>os.close\<close> and then, unless that raised, \<^verbatim>\<open>os.unlink\<close>, and nothing else;
  a path gets \<^verbatim>\<open>shutil.rmtree\<close> and nothing else. So \<^verbatim>\<open>cleanup\<close> closes only
  descriptors of tracked pairs, unlinks only paths of tracked pairs, and removes only
  trees of tracked directory paths.
\<close>

theorem tracked_shape:
  "(set (paths self) \<subseteq> set (produced tr) \<longrightarrow>
      step (traced H) c (self, (w, tr)) = (self1, (w1, tr1)) \<longrightarrow>
      set (paths self1) \<subseteq> set (produced tr1)) \<and>
   (run (traced H) cs (Tempfile_init, (w, [])) = (self2, (w2, tr2)) \<longrightarrow>
      set (paths self2) \<subseteq> set (produced tr2)) \<and>
   (FileHandle f p \<in> set (produced tr) \<longleftrightarrow> (\<exists>a. Call_mkstemp a (Inr (f, p)) \<in> set tr)) \<and>
   (DirHandle q \<in> set (produced tr) \<longleftrightarrow> (\<exists>a. Call_mkdtemp a (Inr q) \<in> set tr)) \<and>
   (cleanup_entry (traced H) h (w, tr) = (r, (w3, tr3)) \<longrightarrow>
      (is_tuple h \<longrightarrow>
         (\<exists>f p. h = FileHandle f p \<and>
            (tr3 = tr @ [Call_close f] \<or> tr3 = tr @ [Call_close f, Call_unlink p]))) \<and>
      (\<not> is_tuple h \<longrightarrow> (\<exists>p. h = DirHandle p \<and> tr3 = tr @ [Call_rmtree p]))) \<and>
   (cleanup (traced H) self (w, tr) = (r', self4, (w4, tr4)) \<longrightarrow>
      (\<exists>cs. tr4 = tr @ cs \<and>
         (\<forall>f. Call_close f \<in> set cs \<longrightarrow> (\<exists>p. FileHandle f p \<in> set (paths self))) \<and>
         (\<forall>p. Call_unlink p \<in> set cs \<longrightarrow> (\<exists>f. FileHandle f p \<in> set (paths self))) \<and>
         (\<forall>p. Call_rmtree p \<in> set cs \<longrightarrow> DirHandle p \<in> set (paths self)) \<and>
         (\<forall>a x. Call_mkstemp a x \<notin> set cs) \<and> (\<forall>a y. Call_mkdtemp a y \<notin> set cs)))"
proof -
  have 1: "set (paths self) \<subseteq> set (produced tr) \<longrightarrow>
      step (traced H) c (self, (w, tr)) = (self1, (w1, tr1)) \<longrightarrow>
      set (paths self1) \<subseteq> set (produced tr1)"
    by (intro impI) (rule step_traced_inv)
  have 2: "run (traced H) cs (Tempfile_init, (w, [])) = (self2, (w2, tr2)) \<longrightarrow>
      set (paths self2) \<subseteq> set (produced tr2)"
  proof
    assume "run (traced H) cs (Tempfile_init, (w, [])) = (self2, (w2, tr2))"
    from run_traced[OF this] have "suffix (paths self2) (produced tr2)"
      by (auto simp: Tempfile_init_def)
    then show "set (paths self2) \<subseteq> set (produced tr2)" by (rule set_mono_suffix)
  qed
  note 3 = produced_FileHandle[of f p tr]
  note 4 = produced_DirHandle[of q tr]
  have 5: "cleanup_entry (traced H) h (w, tr) = (r, (w3, tr3)) \<longrightarrow>
      (is_tuple h \<longrightarrow>
         (\<exists>f p. h = FileHandle f p \<and>
            (tr3 = tr @ [Call_close f] \<or> tr3 = tr @ [Call_close f, Call_unlink p]))) \<and>
      (\<not> is_tuple h \<longrightarrow> (\<exists>p. h = DirHandle p \<and> tr3 = tr @ [Call_rmtree p]))"
    by (intro impI conjI) (erule cleanup_entry_calls[rule_format], assumption)+
  have 6: "cleanup (traced H) self (w, tr) = (r', self4, (w4, tr4)) \<longrightarrow>
      (\<exists>cs. tr4 = tr @ cs \<and>
         (\<forall>f. Call_close f \<in> set cs \<longrightarrow> (\<exists>p. FileHandle f p \<in> set (paths self))) \<and>
         (\<forall>p. Call_unlink p \<in> set cs \<longrightarrow> (\<exists>f. FileHandle f p \<in> set (paths self))) \<and>
         (\<forall>p. Call_rmtree p \<in> set cs \<longrightarrow> DirHandle p \<in> set (paths self)) \<and>
         (\<forall>a x. Call_mkstemp a x \<notin> set cs) \<and> (\<forall>a y. Call_mkdtemp a y \<notin> set cs))"
    by (intro impI) (rule cleanup_calls_of_tracked)
  from 1 2 3 4 5 6 show ?thesis by (intro conjI)
qed

theorem tracked_shape_witness:
  "set (paths \<lparr>paths = [FileHandle 3 ''/tmp/tmpa'']\<rparr>) \<subseteq>
     set (produced [Call_mkstemp no_args (Inr (3, ''/tmp/tmpa'')) :: (exn, mkargs) call]) \<and>
   step (traced posix) (Op_mkdtemp no_args)
     (\<lparr>paths = [FileHandle 3 ''/tmp/tmpa'']\<rparr>,
      (\<lparr>files = [''/tmp/tmpa''], dirs = [''/tmp''], open_fds = [0, 1, 2, 3],
        names = [''b'', ''c'', ''d''], tmpdir = ''/tmp''\<rparr>,
       [Call_mkstemp no_args (Inr (3, ''/tmp/tmpa''))])) =
     (\<lparr>paths = [FileHandle 3 ''/tmp/tmpa'', DirHandle ''/tmp/tmpb'']\<rparr>,
      (\<lparr>files = [''/tmp/tmpa''], dirs = [''/tmp'', ''/tmp/tmpb''], open_fds = [0, 1, 2, 3],
        names = [''c'', ''d''], tmpdir = ''/tmp''\<rparr>,
       [Call_mkstemp no_args (Inr (3, ''/tmp/tmpa'')),
        Call_mkdtemp no_args (Inr ''/tmp/tmpb'')])) \<and>
   set (paths \<lparr>paths = [FileHandle 3 ''/tmp/tmpa'', DirHandle ''/tmp/tmpb'']\<rparr>) \<subseteq>
     set (produced [Call_mkstemp no_args (Inr (3, ''/tmp/tmpa'')),
                    Call_mkdtemp no_args (Inr ''/tmp/tmpb'') :: (exn, mkargs) call]) \<and>
   is_tuple (FileHandle 3 ''/tmp/tmpa'') \<and>
   cleanup_entry (traced posix) (FileHandle 3 ''/tmp/tmpa'')
     (\<lparr>files = [''/tmp/tmpa''], dirs = [''/tmp'', ''/tmp/tmpb''], open_fds = [0, 1, 2, 3],
        names = [''c'', ''d''], tmpdir = ''/tmp''\<rparr>, []) =
     (Inr (),
      (\<lparr>files = [], dirs = [''/tmp'', ''/tmp/tmpb''], open_fds = [0, 1, 2],
        names = [''c'', ''d''], tmpdir = ''/tmp''\<rparr>,
       [Call_close 3, Call_unlink ''/tmp/tmpa''])) \<and>
   \<not> is_tuple (DirHandle ''/tmp/tmpb'') \<and>
   cleanup_entry (traced posix) (DirHandle ''/tmp/tmpb'')
     (\<lparr>files = [], dirs = [''/tmp'', ''/tmp/tmpb''], open_fds = [0, 1, 2],
        names = [''c'', ''d''], tmpdir = ''/tmp''\<rparr>, []) =
     (Inr (), (fs0\<lparr>names := [''c'', ''d'']\<rparr>, [Call_rmtree ''/tmp/tmpb''])) \<and>
   cleanup (traced posix) \<lparr>paths = [FileHandle 3 ''/tmp/tmpa'', DirHandle ''/tmp/tmpb'']\<rparr>
     (\<lparr>files = [''/tmp/tmpa''], dirs = [''/tmp'', ''/tmp/tmpb''], open_fds = [0, 1, 2, 3],
        names = [''c'', ''d''], tmpdir = ''/tmp''\<rparr>, []) =
     (Inr (), Tempfile_init,
      (fs0\<lparr>names := [''c'', ''d'']\<rparr>,
       [Call_close 3, Call_unlink ''/tmp/tmpa'', Call_rmtree ''/tmp/tmpb'']))"
  (is "?inv \<and> ?step \<and> ?inv' \<and> ?tuple \<and> ?pair \<and> ?str \<and> ?bare \<and> ?all")
proof -
  have inv: ?inv by simp
  have st: ?step by (simp add: fs_eval method_eval)
  have pair: ?pair by (simp add: fs_eval)
  have bare: ?bare by (simp add: fs_eval)
  have all: ?all by (simp add: fs_eval method_eval)
  from tracked_shape
    [where H = posix and self = "\<lparr>paths = [FileHandle 3 ''/tmp/tmpa'']\<rparr>"
       and tr = "[Call_mkstemp no_args (Inr (3, ''/tmp/tmpa''))]"
       and c = "Op_mkdtemp no_args", THEN conjunct1, rule_format, OF inv st]
  have inv': ?inv' .
  have ?tuple ?str by simp_all
  with inv st inv' pair bare all show ?thesis by blast
qed

text \<open>
  C10, as amended: \<^verbatim>\<open>__enter__\<close> returns the manager as it is, with its tracked list,
  so the block runs on the manager with the entries it tracked before the scope. On
  the file system, when the block removes no entry from the tracked list of the manager
  it receives, and the \<^verbatim>\<open>cleanup\<close> of \<^verbatim>\<open>__exit__\<close> raises nothing, then whether the block
  returned or raised, the \<^verbatim>\<open>with\<close> statement returns or raises what the block did and
  no path that was tracked before the scope was entered exists afterwards.
\<close>

theorem enter_keeps_tracked:
  "Tempfile_enter self = self \<and>
   paths (Tempfile_enter self) = paths self \<and>
   (blk (Tempfile_enter self) v = (s, self3, v1) \<longrightarrow>
    set (paths (Tempfile_enter self)) \<subseteq> set (paths self3) \<longrightarrow>
    cleanup posix self3 v1 = (Inr u, self4, v2) \<longrightarrow>
      with_Tempfile posix self blk v = (s, self4, v2) \<and>
      (\<forall>h \<in> set (paths self). \<not> path_exists v2 (handle_path h)))"
proof (intro conjI impI)
  show "Tempfile_enter self = self" by (simp add: Tempfile_enter_def)
  show "paths (Tempfile_enter self) = paths self" by (simp add: Tempfile_enter_def)
next
  assume a: "blk (Tempfile_enter self) v = (s, self3, v1)"
    and sub: "set (paths (Tempfile_enter self)) \<subseteq> set (paths self3)"
    and b: "cleanup posix self3 v1 = (Inr u, self4, v2)"
  from a b show "with_Tempfile posix self blk v = (s, self4, v2)"
    by (cases s) (simp_all add: with_Tempfile_def Tempfile_exit_def)
  from b have "cleanup_loop posix (paths self3) v1 = (Inr (), v2)"
    by (simp add: cleanup_returns)
  from cleanup_loop_removes[OF this] sub
  show "\<forall>h \<in> set (paths self). \<not> path_exists v2 (handle_path h)"
    by (auto simp: Tempfile_enter_def)
qed

text \<open>
  A file is created on the manager before the scope; inside the scope a directory is
  created. Once the block returns and once it raises; both times the file is gone
  after the \<^verbatim>\<open>with\<close> statement.
\<close>

theorem enter_keeps_tracked_witness:
  "path_exists
     \<lparr>files = [''/tmp/tmpa''], dirs = [''/tmp''], open_fds = [0, 1, 2, 3],
      names = [''b'', ''c'', ''d''], tmpdir = ''/tmp''\<rparr> ''/tmp/tmpa'' \<and>
   block_of posix [Op_mkdtemp no_args]
     (Tempfile_enter \<lparr>paths = [FileHandle 3 ''/tmp/tmpa'']\<rparr>)
     \<lparr>files = [''/tmp/tmpa''], dirs = [''/tmp''], open_fds = [0, 1, 2, 3],
      names = [''b'', ''c'', ''d''], tmpdir = ''/tmp''\<rparr> =
     (Inr (), \<lparr>paths = [FileHandle 3 ''/tmp/tmpa'', DirHandle ''/tmp/tmpb'']\<rparr>,
      \<lparr>files = [''/tmp/tmpa''], dirs = [''/tmp'', ''/tmp/tmpb''], open_fds = [0, 1, 2, 3],
       names = [''c'', ''d''], tmpdir = ''/tmp''\<rparr>) \<and>
   raising_block posix [Op_mkdtemp no_args] (RuntimeError ''boom'')
     (Tempfile_enter \<lparr>paths = [FileHandle 3 ''/tmp/tmpa'']\<rparr>)
     \<lparr>files = [''/tmp/tmpa''], dirs = [''/tmp''], open_fds = [0, 1, 2, 3],
      names = [''b'', ''c'', ''d''], tmpdir = ''/tmp''\<rparr> =
     (Inl (RuntimeError ''boom''),
      \<lparr>paths = [FileHandle 3 ''/tmp/tmpa'', DirHandle ''/tmp/tmpb'']\<rparr>,
      \<lparr>files = [''/tmp/tmpa''], dirs = [''/tmp'', ''/tmp/tmpb''], open_fds = [0, 1, 2, 3],
       names = [''c'', ''d''], tmpdir = ''/tmp''\<rparr>) \<and>
   set (paths (Tempfile_enter \<lparr>paths = [FileHandle 3 ''/tmp/tmpa'']\<rparr>)) \<subseteq>
     set (paths \<lparr>paths = [FileHandle 3 ''/tmp/tmpa'', DirHandle ''/tmp/tmpb'']\<rparr>) \<and>
   cleanup posix \<lparr>paths = [FileHandle 3 ''/tmp/tmpa'', DirHandle ''/tmp/tmpb'']\<rparr>
     \<lparr>files = [''/tmp/tmpa''], dirs = [''/tmp'', ''/tmp/tmpb''], open_fds = [0, 1, 2, 3],
      names = [''c'', ''d''], tmpdir = ''/tmp''\<rparr> =
     (Inr (), Tempfile_init, fs0\<lparr>names := [''c'', ''d'']\<rparr>) \<and>
   with_Tempfile posix \<lparr>paths = [FileHandle 3 ''/tmp/tmpa'']\<rparr>
     (block_of posix [Op_mkdtemp no_args])
     \<lparr>files = [''/tmp/tmpa''], dirs = [''/tmp''], open_fds = [0, 1, 2, 3],
      names = [''b'', ''c'', ''d''], tmpdir = ''/tmp''\<rparr> =
     (Inr (), Tempfile_init, fs0\<lparr>names := [''c'', ''d'']\<rparr>) \<and>
   with_Tempfile posix \<lparr>paths = [FileHandle 3 ''/tmp/tmpa'']\<rparr>
     (raising_block posix [Op_mkdtemp no_args] (RuntimeError ''boom''))
     \<lparr>files = [''/tmp/tmpa''], dirs = [''/tmp''], open_fds = [0, 1, 2, 3],
      names = [''b'', ''c'', ''d''], tmpdir = ''/tmp''\<rparr> =
     (Inl (RuntimeError ''boom''), Tempfile_init, fs0\<lparr>names := [''c'', ''d'']\<rparr>) \<and>
   \<not> path_exists (fs0\<lparr>names := [''c'', ''d'']\<rparr>) ''/tmp/tmpa''"
  (is "?before \<and> ?returns \<and> ?raises \<and> ?kept \<and> ?exit \<and> ?with_ret \<and> ?with_exc \<and> ?gone")
proof -
  have before: ?before by (simp add: path_exists_def)
  have ret: ?returns by (simp add: block_of_def fs_eval method_eval)
  have exc: ?raises by (simp add: raising_block_def fs_eval method_eval)
  have kept: ?kept by (simp add: Tempfile_enter_def)
  have ex: ?exit by (simp add: fs_eval method_eval)
  from enter_keeps_tracked
    [where self = "\<lparr>paths = [FileHandle 3 ''/tmp/tmpa'']\<rparr>"
       and blk = "block_of posix [Op_mkdtemp no_args]",
     THEN conjunct2, THEN conjunct2, rule_format, OF ret kept ex]
  have with_ret: ?with_ret by simp
  from enter_keeps_tracked
    [where self = "\<lparr>paths = [FileHandle 3 ''/tmp/tmpa'']\<rparr>"
       and blk = "raising_block posix [Op_mkdtemp no_args] (RuntimeError ''boom'')",
     THEN conjunct2, THEN conjunct2, rule_format, OF exc kept ex]
  have with_exc: ?with_exc
    and "\<forall>h \<in> set (paths \<lparr>paths = [FileHandle 3 ''/tmp/tmpa'']\<rparr>).
           \<not> path_exists (fs0\<lparr>names := [''c'', ''d'']\<rparr>) (handle_path h)"
    by simp_all
  then have gone: ?gone by simp
  from before ret exc kept ex with_ret with_exc gone show ?thesis by blast
qed

text \<open>
  The claim C10 as it is written fails. A directory, a directory inside it and a file
  are created on the manager before the scope; the block creates one more directory.
  \<^verbatim>\<open>__exit__\<close> raises on the second directory, removed with the first, and the file,
  created before the scope, still exists after the \<^verbatim>\<open>with\<close> statement.
\<close>

theorem with_leaves_earlier_resource:
  "paths (fst nested_state) =
     [DirHandle ''/tmp/tmpa'', DirHandle ''/tmp/tmpa/tmpb'', FileHandle 3 ''/tmp/tmpc''] \<and>
   with_Tempfile posix (fst nested_state) (block_of posix [Op_mkdtemp no_args]) (snd nested_state) =
     (Inl (OSError ENOENT),
      \<lparr>paths = [DirHandle ''/tmp/tmpa'', DirHandle ''/tmp/tmpa/tmpb'', FileHandle 3 ''/tmp/tmpc'',
                DirHandle ''/tmp/tmpd'']\<rparr>,
      \<lparr>files = [''/tmp/tmpc''], dirs = [''/tmp'', ''/tmp/tmpd''], open_fds = [0, 1, 2, 3],
       names = [], tmpdir = ''/tmp''\<rparr>) \<and>
   path_exists
     \<lparr>files = [''/tmp/tmpc''], dirs = [''/tmp'', ''/tmp/tmpd''], open_fds = [0, 1, 2, 3],
      names = [], tmpdir = ''/tmp''\<rparr> ''/tmp/tmpc''"
  by (simp add: nested_state_eq block_of_def fs_eval method_eval)

end
